theory Spec2Isabelle
  imports Main
begin

section \<open>gpt-review: the git commit helper (\<^verbatim>\<open>src/gpt_review/_git.py\<close>)\<close>

text \<open>
  The module locates the repository that holds the working directory, reads the staged
  diff, asks a completion facility for a one-line commit message, commits with it and
  optionally pushes.  The Python functions \<^verbatim>\<open>_find_git_dir\<close>, \<^verbatim>\<open>_diff\<close>,
  \<^verbatim>\<open>_commit_message\<close>, \<^verbatim>\<open>_push\<close> and \<^verbatim>\<open>_commit\<close> are embedded below under
  the same names without the leading underscore (an Isabelle name starts with a letter).

  \<^item> A Python \<^verbatim>\<open>str\<close> is a \<open>string\<close>.  The only characters the code inspects are
    \<^verbatim>\<open>/\<close> and \<^verbatim>\<open>.\<close>, both ASCII.
  \<^item> An exception is a value of \<open>exn\<close>; a function that can raise returns \<open>exn + 'a\<close>
    with \<open>Inl\<close> for the exception.
  \<^item> The \<^verbatim>\<open>while\<close> loop of \<^verbatim>\<open>_find_git_dir\<close> has no evident bound, so it is a
    partial function in the option monad: \<open>None\<close> means that the loop never returns.
  \<^item> The file system, the git repository and the completion facility are collaborators
    outside the module.  Their answers are the fields of an environment record; every
    call to one of them is appended, with its answer, to a trace of events, and an answer
    may depend on the trace so far.  A call to a collaborator is taken to return or to
    raise; the only loop of the module itself is the one in \<^verbatim>\<open>_find_git_dir\<close>.
\<close>

subsection \<open>Exceptions\<close>

text \<open>
  \<open>FileNotFoundError\<close> is the exception \<^verbatim>\<open>_find_git_dir\<close> raises itself.  The other two
  stand for whatever the version-control tool and the completion facility raise.
\<close>

datatype exn =
    FileNotFoundError string
  | ToolError string
  | CompletionError string

subsection \<open>The path functions of the standard library (\<^verbatim>\<open>posixpath\<close>)\<close>

text \<open>
  \<^verbatim>\<open>_find_git_dir\<close> compares its path with the literal \<^verbatim>\<open>"/"\<close>, so the module is
  read on a POSIX system, where \<^verbatim>\<open>os.path\<close> is \<^verbatim>\<open>posixpath\<close>, \<^verbatim>\<open>os.sep\<close> is
  \<^verbatim>\<open>"/"\<close> and \<^verbatim>\<open>os.pardir\<close> is \<^verbatim>\<open>".."\<close>.  The functions below follow CPython's
  \<^verbatim>\<open>Lib/posixpath.py\<close> line by line.
\<close>

definition sep :: char where
  "sep = CHR ''/''"

definition pardir :: string where
  "pardir = ''..''"

text \<open>\<^verbatim>\<open>s.startswith(p)\<close> and \<^verbatim>\<open>s.endswith(p)\<close>.\<close>

definition startswith :: "string \<Rightarrow> string \<Rightarrow> bool" where
  "startswith s p = (take (length p) s = p)"

definition endswith :: "string \<Rightarrow> string \<Rightarrow> bool" where
  "endswith s p = (length p \<le> length s \<and> drop (length s - length p) s = p)"

text \<open>
  \<^verbatim>\<open>path.split("/")\<close>: the pieces between the separators, empty pieces included; the
  result is never the empty list.
\<close>

fun split_sep :: "string \<Rightarrow> string list" where
  "split_sep [] = [[]]"
| "split_sep (c # cs) =
     (if c = sep then [] # split_sep cs
      else (case split_sep cs of
              [] \<Rightarrow> [[c]]
            | w # ws \<Rightarrow> (c # w) # ws))"

text \<open>\<^verbatim>\<open>"/".join(comps)\<close>.\<close>

fun join_sep :: "string list \<Rightarrow> string" where
  "join_sep [] = []"
| "join_sep [c] = c"
| "join_sep (c # d # cs) = c @ [sep] @ join_sep (d # cs)"

text \<open>\<^verbatim>\<open>isabs(s)\<close> is \<^verbatim>\<open>s.startswith("/")\<close>.\<close>

definition isabs :: "string \<Rightarrow> bool" where
  "isabs s = startswith s [sep]"

text \<open>
  \<^verbatim>\<open>join(a, b)\<close> with one component \<^verbatim>\<open>b\<close>:
  \<^verbatim>\<open>
  if b.startswith(sep):            path = b
  elif not path or path.endswith(sep): path += b
  else:                            path += sep + b
  \<close>
\<close>

definition join :: "string \<Rightarrow> string \<Rightarrow> string" where
  "join a b =
     (if startswith b [sep] then b
      else if a = [] \<or> endswith a [sep] then a @ b
      else a @ [sep] @ b)"

text \<open>
  The loop of \<^verbatim>\<open>normpath\<close> over the pieces of the path:
  \<^verbatim>\<open>
  for comp in comps:
      if comp in ('', '.'):
          continue
      if (comp != '..' or (not initial_slashes and not new_comps) or
           (new_comps and new_comps[-1] == '..')):
          new_comps.append(comp)
      elif new_comps:
          new_comps.pop()
  \<close>
\<close>

fun norm_comps :: "nat \<Rightarrow> string list \<Rightarrow> string list \<Rightarrow> string list" where
  "norm_comps initial_slashes [] new_comps = new_comps"
| "norm_comps initial_slashes (comp' # comps) new_comps =
     (if comp' = [] \<or> comp' = ''.'' then norm_comps initial_slashes comps new_comps
      else if comp' \<noteq> ''..'' \<or> (initial_slashes = 0 \<and> new_comps = [])
                \<or> (new_comps \<noteq> [] \<and> last new_comps = ''..'')
        then norm_comps initial_slashes comps (new_comps @ [comp'])
      else if new_comps \<noteq> [] then norm_comps initial_slashes comps (butlast new_comps)
      else norm_comps initial_slashes comps new_comps)"

text \<open>
  The number of leading slashes \<^verbatim>\<open>normpath\<close> keeps: POSIX gives a path that starts with
  exactly two slashes a meaning of its own, so two are kept, and three or more count as one.
  \<^verbatim>\<open>
  initial_slashes = path.startswith(sep)
  if (initial_slashes and
      path.startswith(sep*2) and not path.startswith(sep*3)):
      initial_slashes = 2
  \<close>
\<close>

definition initial_slashes_of :: "string \<Rightarrow> nat" where
  "initial_slashes_of path =
     (if startswith path [sep] then
        (if startswith path [sep, sep] \<and> \<not> startswith path [sep, sep, sep] then 2 else 1)
      else 0)"

definition normpath :: "string \<Rightarrow> string" where
  "normpath path =
     (if path = [] then ''.''
      else
        let initial_slashes = initial_slashes_of path;
            comps = norm_comps initial_slashes (split_sep path) [];
            path1 = join_sep comps;
            path2 = (if initial_slashes \<noteq> 0
                     then replicate initial_slashes sep @ path1 else path1)
        in if path2 = [] then ''.'' else path2)"

text \<open>
  \<^verbatim>\<open>abspath(path)\<close>; the first argument is the answer of \<^verbatim>\<open>os.getcwd()\<close>.
  \<^verbatim>\<open>
  if not isabs(path):
      path = join(os.getcwd(), path)
  return normpath(path)
  \<close>
\<close>

definition abspath :: "string \<Rightarrow> string \<Rightarrow> string" where
  "abspath cwd path = normpath (if \<not> isabs path then join cwd path else path)"

subsection \<open>The repository locator\<close>

text \<open>
  \<^verbatim>\<open>
  def _find_git_dir(path=".") -> str:
      while path != "/":
          if os.path.exists(os.path.join(path, ".git")):
              return path
          path = os.path.abspath(os.path.join(path, os.pardir))
      raise FileNotFoundError(".git directory not found")
  \<close>
  \<open>cwd\<close> is the working directory and \<open>ex\<close> is \<^verbatim>\<open>os.path.exists\<close>; the loop only
  reads the file system.  The callers in the module pass no argument, that is, the
  default \<^verbatim>\<open>"."\<close>.
\<close>

partial_function (option) find_git_dir ::
  "string \<Rightarrow> (string \<Rightarrow> bool) \<Rightarrow> string \<Rightarrow> (exn + string) option" where
  "find_git_dir cwd ex path =
     (if path \<noteq> ''/'' then
        (if ex (join path ''.git'') then Some (Inr path)
         else find_git_dir cwd ex (abspath cwd (join path pardir)))
      else Some (Inl (FileNotFoundError ''.git directory not found'')))"

declare find_git_dir.simps [code]

text \<open>
  One step of the walk: the directory the loop moves to when \<open>path\<close> holds no
  \<^verbatim>\<open>.git\<close>.  The directories the loop visits from \<open>path\<close> are
  \<open>(parent cwd ^^ k) path\<close> for \<open>k = 0, 1, 2, \<dots>\<close>.
\<close>

definition parent :: "string \<Rightarrow> string \<Rightarrow> string" where
  "parent cwd path = abspath cwd (join path pardir)"

text \<open>
  A piece of a normalised absolute path: not empty, not \<^verbatim>\<open>.\<close> or \<^verbatim>\<open>..\<close>, and
  without a separator.
\<close>

definition clean :: "string \<Rightarrow> bool" where
  "clean c = (c \<noteq> [] \<and> c \<noteq> ''.'' \<and> c \<noteq> ''..'' \<and> sep \<notin> set c)"

subsection \<open>Collaborators and the trace of their calls\<close>

text \<open>
  Each event is one call made by the module, with its arguments and its answer:
  \<^verbatim>\<open>logging.debug(fmt, *args)\<close>, \<^verbatim>\<open>Repo.init(path)\<close>,
  \<^verbatim>\<open>repo.git.diff(None, cached=True)\<close>, \<^verbatim>\<open>_request_goal(content, goal, fast=, large=)\<close>,
  \<^verbatim>\<open>repo.git.commit(message=)\<close> and \<^verbatim>\<open>repo.git.push()\<close>.  A repository object is
  identified with the path it was opened at.
\<close>

datatype event =
    LogDebug string "string list"
  | RepoInit string "exn + unit"
  | GitDiff string "exn + string"
  | RequestGoal string string bool bool "exn + string"
  | GitCommit string string "exn + string"
  | GitPush string "exn + string"

type_synonym trace = "event list"

text \<open>The outcome of a run: \<open>None\<close> when it never returns, else its result and the trace.\<close>

type_synonym 'a outcome = "((exn + 'a) \<times> trace) option"

text \<open>
  The collaborators.  \<^verbatim>\<open>_request_goal\<close> is imported from \<^verbatim>\<open>gpt_review._review\<close>
  and \<^verbatim>\<open>Repo\<close> from GitPython; neither is part of this module, so both are
  parameters.  Every answer may depend on the calls made so far.
\<close>

record env =
  os_getcwd :: string
  os_path_exists :: "trace \<Rightarrow> string \<Rightarrow> bool"
  repo_init :: "trace \<Rightarrow> string \<Rightarrow> exn + unit"
  repo_git_diff :: "trace \<Rightarrow> string \<Rightarrow> exn + string"
  request_goal :: "trace \<Rightarrow> string \<Rightarrow> string \<Rightarrow> bool \<Rightarrow> bool \<Rightarrow> exn + string"
  repo_git_commit :: "trace \<Rightarrow> string \<Rightarrow> string \<Rightarrow> exn + string"
  repo_git_push :: "trace \<Rightarrow> string \<Rightarrow> exn + string"

subsection \<open>The pipeline\<close>

text \<open>
  \<^verbatim>\<open>
  def _diff() -> str:
      return Repo.init(_find_git_dir()).git.diff(None, cached=True)
  \<close>
\<close>

definition diff :: "env \<Rightarrow> trace \<Rightarrow> string outcome" where
  "diff env tr =
     (case find_git_dir (os_getcwd env) (os_path_exists env tr) ''.'' of
        None \<Rightarrow> None
      | Some (Inl e) \<Rightarrow> Some (Inl e, tr)
      | Some (Inr p) \<Rightarrow>
          (let r = repo_init env tr p; tr1 = tr @ [RepoInit p r] in
           case r of
             Inl e \<Rightarrow> Some (Inl e, tr1)
           | Inr u \<Rightarrow>
               (let d = repo_git_diff env tr1 p in Some (d, tr1 @ [GitDiff p d]))))"

text \<open>
  The instruction of \<^verbatim>\<open>_commit_message\<close>, a triple-quoted literal that starts and ends
  with a newline.
\<close>

definition goal :: string where
  "goal = [CHR 0x0A] @ ''Create a short, single-line, git commit message for these changes''
            @ [CHR 0x0A]"

text \<open>
  \<^verbatim>\<open>
  def _commit_message(gpt4: bool = False, large: bool = False) -> str:
      goal = """
  Create a short, single-line, git commit message for these changes
  """
      diff = _diff()
      logging.debug("Diff: %s", diff)
      return _request_goal(diff, goal, fast=not gpt4, large=large)
  \<close>
\<close>

definition commit_message :: "env \<Rightarrow> trace \<Rightarrow> bool \<Rightarrow> bool \<Rightarrow> string outcome" where
  "commit_message env tr gpt4 large =
     (case diff env tr of
        None \<Rightarrow> None
      | Some (Inl e, tr1) \<Rightarrow> Some (Inl e, tr1)
      | Some (Inr d, tr1) \<Rightarrow>
          (let tr2 = tr1 @ [LogDebug ''Diff: %s'' [d]];
               r = request_goal env tr2 d goal (\<not> gpt4) large
           in Some (r, tr2 @ [RequestGoal d goal (\<not> gpt4) large r])))"

text \<open>
  \<^verbatim>\<open>
  def _push() -> str:
      logging.debug("Pushing commit to remote.")
      repo = Repo.init(_find_git_dir())
      return repo.git.push()
  \<close>
\<close>

definition push :: "env \<Rightarrow> trace \<Rightarrow> string outcome" where
  "push env tr =
     (let tr1 = tr @ [LogDebug ''Pushing commit to remote.'' []] in
      case find_git_dir (os_getcwd env) (os_path_exists env tr1) ''.'' of
        None \<Rightarrow> None
      | Some (Inl e) \<Rightarrow> Some (Inl e, tr1)
      | Some (Inr p) \<Rightarrow>
          (let r = repo_init env tr1 p; tr2 = tr1 @ [RepoInit p r] in
           case r of
             Inl e \<Rightarrow> Some (Inl e, tr2)
           | Inr u \<Rightarrow>
               (let s = repo_git_push env tr2 p in Some (s, tr2 @ [GitPush p s]))))"

text \<open>
  \<^verbatim>\<open>
  def _commit(gpt4: bool = False, large: bool = False, push: bool = False) -> Dict[str, str]:
      message = _commit_message(gpt4=gpt4, large=large)
      logging.debug("Commit Message: %s", message)
      repo = Repo.init(_find_git_dir())
      commit = repo.git.commit(message=message)
      if push:
          commit += f"\n{_push()}"
      return {"response": commit}
  \<close>
  The flag \<^verbatim>\<open>push\<close> is \<open>push_flag\<close> here, and the string \<^verbatim>\<open>commit\<close> is
  \<open>commit_text\<close>; the returned dictionary is a map.
\<close>

definition commit ::
  "env \<Rightarrow> trace \<Rightarrow> bool \<Rightarrow> bool \<Rightarrow> bool \<Rightarrow> (string \<rightharpoonup> string) outcome" where
  "commit env tr gpt4 large push_flag =
     (case commit_message env tr gpt4 large of
        None \<Rightarrow> None
      | Some (Inl e, tr1) \<Rightarrow> Some (Inl e, tr1)
      | Some (Inr message, tr1) \<Rightarrow>
          (let tr2 = tr1 @ [LogDebug ''Commit Message: %s'' [message]] in
           case find_git_dir (os_getcwd env) (os_path_exists env tr2) ''.'' of
             None \<Rightarrow> None
           | Some (Inl e) \<Rightarrow> Some (Inl e, tr2)
           | Some (Inr p) \<Rightarrow>
               (let r = repo_init env tr2 p; tr3 = tr2 @ [RepoInit p r] in
                case r of
                  Inl e \<Rightarrow> Some (Inl e, tr3)
                | Inr u \<Rightarrow>
                    (let c = repo_git_commit env tr3 p message;
                         tr4 = tr3 @ [GitCommit p message c]
                     in case c of
                          Inl e \<Rightarrow> Some (Inl e, tr4)
                        | Inr commit_text \<Rightarrow>
                            if push_flag then
                              (case push env tr4 of
                                 None \<Rightarrow> None
                               | Some (Inl e, tr5) \<Rightarrow> Some (Inl e, tr5)
                               | Some (Inr pushed, tr5) \<Rightarrow>
                                   Some (Inr [''response'' \<mapsto>
                                                commit_text @ [CHR 0x0A] @ pushed],
                                         tr5))
                            else Some (Inr [''response'' \<mapsto> commit_text], tr4)))))"

subsection \<open>Example file systems and environments\<close>

text \<open>
  Concrete inputs for the examples that follow the theorems.  \<open>fs_root_repo\<close>: only the
  root directory holds \<^verbatim>\<open>.git\<close>.  \<open>fs_nested_repos\<close>: seen from the working directory
  \<^verbatim>\<open>/home/u/proj\<close>, that directory and its parent both hold one.  \<open>fs_proj_repo\<close>: only
  \<^verbatim>\<open>/home/u/proj\<close> holds one.  \<open>fs_no_repo\<close>: no directory holds one.
\<close>

definition fs_root_repo :: "string \<Rightarrow> bool" where
  "fs_root_repo p = (p = ''/.git'')"

definition fs_nested_repos :: "string \<Rightarrow> bool" where
  "fs_nested_repos p = (p = ''./.git'' \<or> p = ''/home/u/proj/.git'' \<or> p = ''/home/u/.git'')"

definition fs_proj_repo :: "string \<Rightarrow> bool" where
  "fs_proj_repo p = (p = ''/home/u/proj/.git'')"

definition fs_no_repo :: "string \<Rightarrow> bool" where
  "fs_no_repo p = False"

text \<open>
  \<open>example_env\<close>: the working directory is \<^verbatim>\<open>/home/u/proj/src\<close> inside the repository
  \<^verbatim>\<open>/home/u/proj\<close>, one line is staged, and every collaborator succeeds.  The variants
  change one collaborator each.
\<close>

definition example_env :: env where
  "example_env =
     \<lparr> os_getcwd = ''/home/u/proj/src'',
       os_path_exists = (\<lambda>tr. fs_proj_repo),
       repo_init = (\<lambda>tr p. Inr ()),
       repo_git_diff = (\<lambda>tr p. Inr ''+line''),
       request_goal = (\<lambda>tr c g f l. Inr ''Add line''),
       repo_git_commit = (\<lambda>tr p m. Inr ''[main 1a2b3c4] Add line''),
       repo_git_push = (\<lambda>tr p. Inr ''pushed'') \<rparr>"

definition env_empty_diff :: env where
  "env_empty_diff = example_env \<lparr> repo_git_diff := (\<lambda>tr p. Inr []) \<rparr>"

definition env_push_rejected :: env where
  "env_push_rejected = example_env \<lparr> repo_git_push := (\<lambda>tr p. Inl (ToolError ''rejected'')) \<rparr>"

definition env_no_repo :: env where
  "env_no_repo = example_env \<lparr> os_path_exists := (\<lambda>tr. fs_no_repo) \<rparr>"

section \<open>Properties\<close>

subsection \<open>Facts about the path functions\<close>

lemmas path_defs = join_def abspath_def normpath_def startswith_def endswith_def isabs_def
  sep_def pardir_def initial_slashes_of_def parent_def

lemmas fs_defs = fs_root_repo_def fs_nested_repos_def fs_proj_repo_def fs_no_repo_def

lemmas env_defs = example_env_def env_empty_diff_def env_push_rejected_def env_no_repo_def

lemma parent_root: "parent cwd ''/'' = ''/''"
  by (simp add: path_defs)

lemma funpow_parent_root: "(parent cwd ^^ n) ''/'' = ''/''"
  by (induction n) (simp_all add: parent_root)

lemma parent_double_slash: "parent cwd ''//'' = ''//''"
  by (simp add: path_defs numeral_2_eq_2)

lemma funpow_parent_double_slash: "(parent cwd ^^ n) ''//'' = ''//''"
  by (induction n) (simp_all add: parent_double_slash)

lemma root_is_sep: "''/'' = [sep]"
  by (simp add: sep_def)

text \<open>Splitting at the separator and joining with it.\<close>

lemma split_sep_nonempty: "split_sep s \<noteq> []"
  by (induction s) (auto split: list.splits)

lemma split_sep_no_sep: "c \<in> set (split_sep s) \<Longrightarrow> sep \<notin> set c"
  by (induction s arbitrary: c) (auto split: list.splits if_splits)

lemma split_sep_append:
  "split_sep (a @ sep # b) = split_sep a @ split_sep b"
  by (induction a) (auto split: list.splits simp: split_sep_nonempty)

lemma split_sep_single: "sep \<notin> set c \<Longrightarrow> split_sep c = [c]"
  by (induction c) (auto split: list.splits)

lemma split_sep_join_sep:
  "cs \<noteq> [] \<Longrightarrow> (\<forall>c\<in>set cs. sep \<notin> set c) \<Longrightarrow> split_sep (join_sep cs) = cs"
proof (induction cs rule: join_sep.induct)
  case 1
  then show ?case by simp
next
  case (2 c)
  then show ?case by (simp add: split_sep_single)
next
  case (3 c d cs)
  then show ?case by (simp add: split_sep_append split_sep_single)
qed

lemma cleanD:
  assumes "clean c"
  shows "c \<noteq> []" and "c \<noteq> ''.''" and "c \<noteq> ''..''" and "sep \<notin> set c"
  using assms by (simp_all add: clean_def)

lemma clean_hd: "clean c \<Longrightarrow> hd c \<noteq> sep"
  using cleanD(1,4) [of c] hd_in_set [of c] by metis

lemma clean_last: "clean c \<Longrightarrow> last c \<noteq> sep"
  using cleanD(1,4) [of c] last_in_set [of c] by metis

lemma norm_comps_clean_step:
  "clean c \<Longrightarrow> norm_comps i (c # rest) new = norm_comps i rest (new @ [c])"
  using cleanD(1,2,3) [of c] by simp

lemma norm_comps_clean_append:
  "(\<forall>c\<in>set cs. clean c) \<Longrightarrow> norm_comps i (cs @ rest) new = norm_comps i rest (new @ cs)"
proof (induction cs arbitrary: new)
  case Nil
  then show ?case by simp
next
  case (Cons a cs)
  then show ?case by (simp add: norm_comps_clean_step del: norm_comps.simps)
qed

lemma norm_comps_skip:
  "c = [] \<or> c = ''.'' \<Longrightarrow> norm_comps i (c # rest) new = norm_comps i rest new"
  by simp

lemma norm_comps_up_empty:
  "i \<noteq> 0 \<Longrightarrow> norm_comps i (''..'' # rest) [] = norm_comps i rest []"
  by simp

lemma norm_comps_up_pop:
  "i \<noteq> 0 \<Longrightarrow> new \<noteq> [] \<Longrightarrow> last new \<noteq> ''..'' \<Longrightarrow>
   norm_comps i (''..'' # rest) new = norm_comps i rest (butlast new)"
  by simp

lemma norm_comps_all_clean:
  "i \<noteq> 0 \<Longrightarrow> (\<forall>c\<in>set new. clean c) \<Longrightarrow> (\<forall>c\<in>set comps. sep \<notin> set c) \<Longrightarrow>
   (\<forall>c\<in>set (norm_comps i comps new). clean c)"
proof (induction comps arbitrary: new)
  case Nil
  then show ?case by simp
next
  case (Cons a comps)
  have rest: "\<forall>c\<in>set comps. sep \<notin> set c" using Cons.prems(3) by simp
  have a_sep: "sep \<notin> set a" using Cons.prems(3) by simp
  consider (skip) "a = [] \<or> a = ''.''" | (up) "a = ''..''"
    | (name) "a \<noteq> [] \<and> a \<noteq> ''.'' \<and> a \<noteq> ''..''" by blast
  then show ?case
  proof cases
    case skip
    then have "norm_comps i (a # comps) new = norm_comps i comps new"
      by (rule norm_comps_skip)
    with Cons.IH [OF Cons.prems(1) Cons.prems(2) rest] show ?thesis by (simp del: norm_comps.simps)
  next
    case up
    show ?thesis
    proof (cases "new = []")
      case True
      have "norm_comps i (a # comps) new = norm_comps i comps new"
        unfolding up True using Cons.prems(1) by (rule norm_comps_up_empty)
      with Cons.IH [OF Cons.prems(1) Cons.prems(2) rest] show ?thesis by (simp del: norm_comps.simps)
    next
      case False
      then have "last new \<in> set new" by simp
      with Cons.prems(2) have "clean (last new)" by blast
      then have nl: "last new \<noteq> ''..''" by (rule cleanD(3))
      have bl: "\<forall>c\<in>set (butlast new). clean c"
        using Cons.prems(2) by (blast dest: in_set_butlastD)
      have "norm_comps i (a # comps) new = norm_comps i comps (butlast new)"
        unfolding up using Cons.prems(1) False nl by (rule norm_comps_up_pop)
      with Cons.IH [OF Cons.prems(1) bl rest] show ?thesis by (simp del: norm_comps.simps)
    qed
  next
    case name
    with a_sep have ca: "clean a" by (simp add: clean_def)
    have app: "\<forall>c\<in>set (new @ [a]). clean c" using Cons.prems(2) ca by simp
    have "norm_comps i (a # comps) new = norm_comps i comps (new @ [a])"
      using ca by (rule norm_comps_clean_step)
    with Cons.IH [OF Cons.prems(1) app rest] show ?thesis by (simp del: norm_comps.simps)
  qed
qed

lemma join_sep_nonempty: "cs \<noteq> [] \<Longrightarrow> (\<forall>c\<in>set cs. clean c) \<Longrightarrow> join_sep cs \<noteq> []"
proof (induction cs rule: join_sep.induct)
  case 1
  then show ?case by simp
next
  case (2 c)
  then show ?case by (simp add: cleanD(1))
next
  case (3 c d cs)
  then show ?case by simp
qed

lemma join_sep_hd: "cs \<noteq> [] \<Longrightarrow> (\<forall>c\<in>set cs. clean c) \<Longrightarrow> hd (join_sep cs) \<noteq> sep"
proof (induction cs rule: join_sep.induct)
  case 1
  then show ?case by simp
next
  case (2 c)
  then show ?case by (simp add: clean_hd)
next
  case (3 c d cs)
  then have "clean c" by simp
  then show ?case by (simp add: hd_append cleanD(1) clean_hd)
qed

lemma join_sep_last: "cs \<noteq> [] \<Longrightarrow> (\<forall>c\<in>set cs. clean c) \<Longrightarrow> last (join_sep cs) \<noteq> sep"
proof (induction cs rule: join_sep.induct)
  case 1
  then show ?case by simp
next
  case (2 c)
  then show ?case by (simp add: clean_last)
next
  case (3 c d cs)
  then have ne: "join_sep (d # cs) \<noteq> []" by (simp add: join_sep_nonempty)
  from 3 have "last (join_sep (d # cs)) \<noteq> sep" by simp
  with ne show ?case by simp
qed

lemma initial_slashes_nonempty: "initial_slashes_of s \<noteq> 0 \<Longrightarrow> s \<noteq> []"
  by (auto simp: initial_slashes_of_def startswith_def)

lemma initial_slashes_append_one:
  assumes "initial_slashes_of s = 1" and "s \<noteq> [sep] \<or> \<not> startswith t [sep]"
  shows "initial_slashes_of (s @ t) = 1"
proof (cases s)
  case Nil
  with assms(1) show ?thesis by (simp add: initial_slashes_of_def startswith_def)
next
  case s: (Cons a s1)
  with assms(1) have a: "a = sep"
    by (simp add: initial_slashes_of_def startswith_def split: if_splits)
  show ?thesis
  proof (cases s1)
    case Nil
    with s a assms(2) have "\<not> startswith t [sep]" by simp
    with s a Nil show ?thesis
      by (cases t) (simp_all add: initial_slashes_of_def startswith_def)
  next
    case s1: (Cons b s2)
    show ?thesis
    proof (cases "b = sep")
      case False
      with s a s1 show ?thesis by (simp add: initial_slashes_of_def startswith_def)
    next
      case True
      with assms(1) s a s1 obtain s3 where "s2 = sep # s3"
        by (cases s2) (simp_all add: initial_slashes_of_def startswith_def split: if_splits)
      with s a s1 True show ?thesis by (simp add: initial_slashes_of_def startswith_def)
    qed
  qed
qed

lemma normpath_single_root:
  assumes "initial_slashes_of q = 1"
  shows "\<exists>cs. (\<forall>c\<in>set cs. clean c) \<and> normpath q = sep # join_sep cs"
proof -
  have ne: "q \<noteq> []" using assms initial_slashes_nonempty [of q] by simp
  have cl: "\<forall>c\<in>set (norm_comps 1 (split_sep q) []). clean c"
    by (rule norm_comps_all_clean) (simp_all add: split_sep_no_sep)
  have "normpath q = sep # join_sep (norm_comps 1 (split_sep q) [])"
    using ne assms by (simp add: normpath_def Let_def)
  with cl show ?thesis by blast
qed

lemma pardir_not_abs: "\<not> startswith pardir [sep]"
  by (simp add: pardir_def startswith_def sep_def)

lemma endswith_sep: "s \<noteq> [] \<Longrightarrow> endswith s [sep] = (last s = sep)"
proof -
  assume ne: "s \<noteq> []"
  then obtain xs x where s: "s = xs @ [x]" by (metis append_butlast_last_id)
  show ?thesis unfolding s by (simp add: endswith_def)
qed

lemma parent_clean:
  assumes cl: "\<forall>c\<in>set cs. clean c" and ne: "cs \<noteq> []"
  shows "parent cwd (sep # join_sep cs) = sep # join_sep (butlast cs)"
proof -
  let ?js = "join_sep cs"
  have js: "?js \<noteq> []" using ne cl by (rule join_sep_nonempty)
  have hd: "hd ?js \<noteq> sep" using ne cl by (rule join_sep_hd)
  have last: "last ?js \<noteq> sep" using ne cl by (rule join_sep_last)
  have "last (sep # ?js) \<noteq> sep" using js last by simp
  then have ends: "\<not> endswith (sep # ?js) [sep]" by (simp add: endswith_sep del: last.simps)
  have j: "join (sep # ?js) pardir = sep # ?js @ sep # pardir"
    using ends pardir_not_abs by (simp add: join_def)
  have abs: "isabs (sep # ?js @ sep # pardir)" by (simp add: isabs_def startswith_def)
  obtain h t where ht: "?js = h # t" using js by (cases ?js) auto
  with hd have h: "h \<noteq> sep" by simp
  have init: "initial_slashes_of (sep # ?js @ sep # pardir) = 1"
    unfolding ht using h by (simp add: initial_slashes_of_def startswith_def)
  have seps: "\<forall>c\<in>set cs. sep \<notin> set c" using cl cleanD(4) by blast
  have sp: "split_sep (sep # ?js @ sep # pardir) = [] # cs @ [pardir]"
  proof -
    have "split_sep (?js @ sep # pardir) = split_sep ?js @ split_sep pardir"
      by (rule split_sep_append)
    also have "split_sep ?js = cs" using ne seps by (rule split_sep_join_sep)
    also have "split_sep pardir = [pardir]"
      by (rule split_sep_single) (simp add: pardir_def sep_def)
    finally show ?thesis by simp
  qed
  have lastc: "last cs \<noteq> ''..''" using ne cl cleanD(3) last_in_set by blast
  have nc: "norm_comps 1 ([] # cs @ [pardir]) [] = butlast cs"
  proof -
    have "norm_comps 1 ([] # cs @ [pardir]) [] = norm_comps 1 (cs @ [pardir]) []"
      by (rule norm_comps_skip) simp
    also have "\<dots> = norm_comps 1 [pardir] ([] @ cs)"
      using cl by (rule norm_comps_clean_append)
    also have "\<dots> = norm_comps 1 [] (butlast cs)"
      unfolding pardir_def using ne lastc by (simp add: norm_comps_up_pop del: norm_comps.simps)
    finally show ?thesis by simp
  qed
  have "normpath (sep # ?js @ sep # pardir) = sep # join_sep (butlast cs)"
    using init sp nc by (simp add: normpath_def Let_def del: norm_comps.simps split_sep.simps)
  with j abs show ?thesis by (simp add: parent_def abspath_def)
qed

text \<open>
  A path that starts with one slash, or with three or more, is normalised to \<^verbatim>\<open>/\<close>
  followed by clean pieces, and the parent of such a normalised path drops the last piece.
\<close>

lemma join_pardir_cases:
  "join path pardir = path @ pardir \<or> join path pardir = path @ sep # pardir"
  using pardir_not_abs by (simp add: join_def)

lemma startswith_append_left:
  "s \<noteq> [] \<Longrightarrow> startswith (s @ t) [sep] = startswith s [sep]"
  by (cases s) (simp_all add: startswith_def)

lemma parent_single_root:
  assumes cwd: "initial_slashes_of cwd = 1"
      and path: "initial_slashes_of path \<noteq> 2"
      and ne: "path \<noteq> ''/''"
  shows "\<exists>cs. (\<forall>c\<in>set cs. clean c) \<and> parent cwd path = sep # join_sep cs"
proof -
  let ?rel = "join path pardir"
  let ?q = "if \<not> isabs ?rel then join cwd ?rel else ?rel"
  have "initial_slashes_of ?q = 1"
  proof (cases "isabs ?rel")
    case True
    have pne: "path \<noteq> []"
    proof
      assume "path = []"
      then have "?rel = pardir" by (simp add: join_def)
      with True pardir_not_abs show False by (simp add: isabs_def)
    qed
    obtain t where rel: "?rel = path @ t" using join_pardir_cases [of path] by blast
    from True have "startswith path [sep]"
      unfolding isabs_def rel using pne by (simp add: startswith_append_left)
    with path have one: "initial_slashes_of path = 1"
      by (simp add: initial_slashes_of_def split: if_splits)
    have "initial_slashes_of (path @ t) = 1"
      by (rule initial_slashes_append_one [OF one]) (use ne in \<open>simp add: root_is_sep\<close>)
    with True rel show ?thesis by simp
  next
    case False
    then have nabs: "\<not> startswith ?rel [sep]" by (simp add: isabs_def)
    have cne: "cwd \<noteq> []" using cwd initial_slashes_nonempty [of cwd] by simp
    have "initial_slashes_of (join cwd ?rel) = 1"
    proof (cases "endswith cwd [sep]")
      case True
      with nabs cne have j: "join cwd ?rel = cwd @ ?rel" by (simp add: join_def)
      show ?thesis unfolding j
        by (rule initial_slashes_append_one [OF cwd]) (use nabs in simp)
    next
      case nends: False
      with nabs cne have j: "join cwd ?rel = cwd @ sep # ?rel" by (simp add: join_def)
      from nends cne have "cwd \<noteq> [sep]" by (auto simp: endswith_def)
      then show ?thesis unfolding j
        by (intro initial_slashes_append_one [OF cwd]) simp
    qed
    with False show ?thesis by simp
  qed
  then have "\<exists>cs. (\<forall>c\<in>set cs. clean c) \<and> normpath ?q = sep # join_sep cs"
    by (rule normpath_single_root)
  then show ?thesis by (simp add: parent_def abspath_def)
qed

text \<open>
  A path that starts with exactly two slashes stays one under \<open>normpath\<close> and under
  \<open>parent\<close>.
\<close>

lemma initial_slashes_append_two:
  assumes "initial_slashes_of s = 2" and "s \<noteq> [sep, sep] \<or> \<not> startswith t [sep]"
  shows "initial_slashes_of (s @ t) = 2"
proof -
  from assms(1) obtain s2 where s: "s = sep # sep # s2"
    by (cases s; cases "tl s")
       (simp_all add: initial_slashes_of_def startswith_def split: if_splits)
  show ?thesis
  proof (cases s2)
    case Nil
    with s assms(2) have "\<not> startswith t [sep]" by simp
    with s Nil show ?thesis
      by (cases t) (simp_all add: initial_slashes_of_def startswith_def)
  next
    case (Cons c s3)
    with s assms(1) have "c \<noteq> sep"
      by (simp add: initial_slashes_of_def startswith_def split: if_splits)
    with s Cons show ?thesis by (simp add: initial_slashes_of_def startswith_def)
  qed
qed

lemma initial_slashes_double_clean:
  assumes "\<forall>c\<in>set cs. clean c"
  shows "initial_slashes_of (sep # sep # join_sep cs) = 2"
proof (cases "cs = []")
  case True
  then show ?thesis by (simp add: initial_slashes_of_def startswith_def)
next
  case False
  then have "join_sep cs \<noteq> []" "hd (join_sep cs) \<noteq> sep"
    using assms by (simp_all add: join_sep_nonempty join_sep_hd)
  then show ?thesis
    by (cases "join_sep cs") (simp_all add: initial_slashes_of_def startswith_def)
qed

lemma normpath_double_root:
  assumes "initial_slashes_of q = 2"
  shows "initial_slashes_of (normpath q) = 2"
proof -
  have ne: "q \<noteq> []" using assms initial_slashes_nonempty [of q] by simp
  have cl: "\<forall>c\<in>set (norm_comps 2 (split_sep q) []). clean c"
    by (rule norm_comps_all_clean) (simp_all add: split_sep_no_sep)
  have "normpath q = sep # sep # join_sep (norm_comps 2 (split_sep q) [])"
    using ne assms by (simp add: normpath_def Let_def numeral_2_eq_2)
  with initial_slashes_double_clean [OF cl] show ?thesis by simp
qed

lemma parent_double_root:
  assumes "initial_slashes_of path = 2"
  shows "initial_slashes_of (parent cwd path) = 2"
proof -
  let ?rel = "join path pardir"
  have pne: "path \<noteq> []" using assms initial_slashes_nonempty [of path] by simp
  have abs: "startswith path [sep]"
    using assms by (simp add: initial_slashes_of_def split: if_splits)
  have two: "initial_slashes_of ?rel = 2"
  proof (cases "endswith path [sep]")
    case True
    with pardir_not_abs have j: "?rel = path @ pardir" by (simp add: join_def)
    show ?thesis unfolding j
      by (rule initial_slashes_append_two [OF assms]) (use pardir_not_abs in simp)
  next
    case False
    with pardir_not_abs pne have j: "?rel = path @ sep # pardir" by (simp add: join_def)
    from False have "path \<noteq> [sep, sep]" by (auto simp: endswith_def)
    then show ?thesis unfolding j
      by (intro initial_slashes_append_two [OF assms]) simp
  qed
  then have "isabs ?rel"
    by (simp add: isabs_def initial_slashes_of_def split: if_splits)
  with two show ?thesis by (simp add: parent_def abspath_def normpath_double_root)
qed

subsection \<open>Facts about the locator\<close>

lemma find_git_dir_here:
  "path \<noteq> ''/'' \<Longrightarrow> ex (join path ''.git'') \<Longrightarrow> find_git_dir cwd ex path = Some (Inr path)"
  by (subst find_git_dir.simps) simp

lemma find_git_dir_root:
  "find_git_dir cwd ex ''/'' = Some (Inl (FileNotFoundError ''.git directory not found''))"
  by (subst find_git_dir.simps) simp

lemma find_git_dir_step:
  "path \<noteq> ''/'' \<Longrightarrow> \<not> ex (join path ''.git'') \<Longrightarrow>
   find_git_dir cwd ex path = find_git_dir cwd ex (parent cwd path)"
  by (subst find_git_dir.simps) (simp add: parent_def)

text \<open>
  The loop returns the first directory of the walk that holds \<^verbatim>\<open>.git\<close>, when that
  directory is not \<^verbatim>\<open>/\<close>.
\<close>

lemma find_git_dir_nearest_aux:
  "(parent cwd ^^ n) path \<noteq> ''/'' \<Longrightarrow> ex (join ((parent cwd ^^ n) path) ''.git'') \<Longrightarrow>
   (\<forall>k<n. \<not> ex (join ((parent cwd ^^ k) path) ''.git'')) \<Longrightarrow>
   find_git_dir cwd ex path = Some (Inr ((parent cwd ^^ n) path))"
proof (induction n arbitrary: path)
  case 0
  then show ?case by (simp add: find_git_dir_here)
next
  case (Suc n)
  have ne: "path \<noteq> ''/''"
    using Suc.prems(1) funpow_parent_root [where cwd = cwd and n = "Suc n"] by auto
  have nex: "\<not> ex (join path ''.git'')"
    using Suc.prems(3) by force
  have shift: "(parent cwd ^^ Suc k) path = (parent cwd ^^ k) (parent cwd path)" for k
    by (simp add: funpow_swap1)
  have "find_git_dir cwd ex (parent cwd path) = Some (Inr ((parent cwd ^^ n) (parent cwd path)))"
  proof (rule Suc.IH)
    show "(parent cwd ^^ n) (parent cwd path) \<noteq> ''/''"
      using Suc.prems(1) shift by simp
    show "ex (join ((parent cwd ^^ n) (parent cwd path)) ''.git'')"
      using Suc.prems(2) shift by simp
    show "\<forall>k<n. \<not> ex (join ((parent cwd ^^ k) (parent cwd path)) ''.git'')"
    proof (intro allI impI)
      fix k assume "k < n"
      then have "Suc k < Suc n" by simp
      with Suc.prems(3) have "\<not> ex (join ((parent cwd ^^ Suc k) path) ''.git'')" by blast
      then show "\<not> ex (join ((parent cwd ^^ k) (parent cwd path)) ''.git'')"
        using shift by simp
    qed
  qed
  then show ?case
    using find_git_dir_step [where ex = ex and cwd = cwd and path = path] ne nex shift by simp
qed

text \<open>
  The loop raises when the walk reaches \<^verbatim>\<open>/\<close> and no directory before it holds
  \<^verbatim>\<open>.git\<close>.
\<close>

lemma find_git_dir_not_found_aux:
  "(parent cwd ^^ n) path = ''/'' \<Longrightarrow>
   (\<forall>k<n. \<not> ex (join ((parent cwd ^^ k) path) ''.git'')) \<Longrightarrow>
   find_git_dir cwd ex path = Some (Inl (FileNotFoundError ''.git directory not found''))"
proof (induction n arbitrary: path)
  case 0
  then show ?case by (simp add: find_git_dir_root)
next
  case (Suc n)
  have shift: "(parent cwd ^^ Suc k) path = (parent cwd ^^ k) (parent cwd path)" for k
    by (simp add: funpow_swap1)
  show ?case
  proof (cases "path = ''/''")
    case True
    then show ?thesis by (simp add: find_git_dir_root)
  next
    case False
    have nex: "\<not> ex (join path ''.git'')"
      using Suc.prems(2) by force
    have "find_git_dir cwd ex (parent cwd path) =
            Some (Inl (FileNotFoundError ''.git directory not found''))"
    proof (rule Suc.IH)
      show "(parent cwd ^^ n) (parent cwd path) = ''/''"
        using Suc.prems(1) shift by simp
      show "\<forall>k<n. \<not> ex (join ((parent cwd ^^ k) (parent cwd path)) ''.git'')"
      proof (intro allI impI)
        fix k assume "k < n"
        then have "Suc k < Suc n" by simp
        with Suc.prems(2) have "\<not> ex (join ((parent cwd ^^ Suc k) path) ''.git'')" by blast
        then show "\<not> ex (join ((parent cwd ^^ k) (parent cwd path)) ''.git'')"
          using shift by simp
      qed
    qed
    then show ?thesis
      using find_git_dir_step [where ex = ex and cwd = cwd and path = path] False nex by simp
  qed
qed

text \<open>
  Whenever the loop returns, it returns a directory other than \<^verbatim>\<open>/\<close> that holds
  \<^verbatim>\<open>.git\<close>, or raises its own \<open>FileNotFoundError\<close>.
\<close>

lemma find_git_dir_result:
  assumes run: "find_git_dir cwd ex p = Some r"
  shows "case r of Inl e \<Rightarrow> e = FileNotFoundError ''.git directory not found''
                 | Inr d \<Rightarrow> d \<noteq> ''/'' \<and> ex (join d ''.git'')"
proof (rule find_git_dir.raw_induct
    [where P = "\<lambda>c e q y. case y of Inl x \<Rightarrow> x = FileNotFoundError ''.git directory not found''
                 | Inr d \<Rightarrow> d \<noteq> ''/'' \<and> e (join d ''.git'')", OF _ run])
  fix fgd :: "string \<Rightarrow> (string \<Rightarrow> bool) \<Rightarrow> string \<Rightarrow> (exn + string) option"
  fix c e q y
  assume IH: "\<And>c' e' q' y'. fgd c' e' q' = Some y' \<Longrightarrow>
                (case y' of Inl x \<Rightarrow> x = FileNotFoundError ''.git directory not found''
                 | Inr d \<Rightarrow> d \<noteq> ''/'' \<and> e' (join d ''.git''))"
  assume step: "(if q \<noteq> ''/'' then
                   if e (join q ''.git'') then Some (Inr q)
                   else fgd c e (abspath c (join q pardir))
                 else Some (Inl (FileNotFoundError ''.git directory not found''))) = Some y"
  show "case y of Inl x \<Rightarrow> x = FileNotFoundError ''.git directory not found''
                 | Inr d \<Rightarrow> d \<noteq> ''/'' \<and> e (join d ''.git'')"
  proof (cases "q = ''/''")
    case True
    with step show ?thesis by auto
  next
    case False
    show ?thesis
    proof (cases "e (join q ''.git'')")
      case True
      with step False show ?thesis by auto
    next
      case nex: False
      with step False have "fgd c e (abspath c (join q pardir)) = Some y" by simp
      from IH [OF this] show ?thesis .
    qed
  qed
qed

text \<open>
  Termination.  Once the path is \<^verbatim>\<open>/\<close> followed by clean pieces, every step that does
  not return drops one piece, so the loop ends after at most as many steps as there are
  pieces.  The first step brings any path into that form when neither the path nor the
  working directory starts with exactly two slashes.
\<close>

lemma find_git_dir_clean_terminates:
  "(\<forall>c\<in>set cs. clean c) \<Longrightarrow> \<exists>r. find_git_dir cwd ex (sep # join_sep cs) = Some r"
proof (induction cs rule: rev_induct)
  case Nil
  then show ?case using find_git_dir_root [of cwd ex] by (simp add: root_is_sep)
next
  case (snoc x xs)
  let ?p = "sep # join_sep (xs @ [x])"
  have cl: "\<forall>c\<in>set (xs @ [x]). clean c" using snoc.prems by simp
  have "join_sep (xs @ [x]) \<noteq> []" by (rule join_sep_nonempty) (use cl in simp_all)
  then have ne: "?p \<noteq> ''/''" by (simp add: root_is_sep)
  show ?case
  proof (cases "ex (join ?p ''.git'')")
    case True
    with ne have "find_git_dir cwd ex ?p = Some (Inr ?p)" by (rule find_git_dir_here)
    then show ?thesis by blast
  next
    case False
    with ne have "find_git_dir cwd ex ?p = find_git_dir cwd ex (parent cwd ?p)"
      by (rule find_git_dir_step)
    also have "parent cwd ?p = sep # join_sep (butlast (xs @ [x]))"
      by (rule parent_clean) (use cl in simp_all)
    finally have "find_git_dir cwd ex ?p = find_git_dir cwd ex (sep # join_sep xs)" by simp
    with snoc.IH snoc.prems show ?thesis by simp
  qed
qed

lemma find_git_dir_terminates:
  assumes cwd: "initial_slashes_of cwd = 1" and path: "initial_slashes_of path \<noteq> 2"
  shows "\<exists>r. find_git_dir cwd ex path = Some r"
proof (cases "path = ''/''")
  case True
  then show ?thesis by (simp add: find_git_dir_root)
next
  case ne: False
  show ?thesis
  proof (cases "ex (join path ''.git'')")
    case True
    with ne have "find_git_dir cwd ex path = Some (Inr path)" by (rule find_git_dir_here)
    then show ?thesis by blast
  next
    case False
    with ne have st: "find_git_dir cwd ex path = find_git_dir cwd ex (parent cwd path)"
      by (rule find_git_dir_step)
    from parent_single_root [OF cwd path ne] obtain cs
      where cl: "\<forall>c\<in>set cs. clean c" and p: "parent cwd path = sep # join_sep cs" by blast
    from find_git_dir_clean_terminates [OF cl] st p show ?thesis by simp
  qed
qed

text \<open>
  Divergence.  From a path that starts with exactly two slashes every directory of the walk
  starts with exactly two slashes, so the walk never reaches the string \<^verbatim>\<open>/\<close>: the loop
  returns only if some directory of the walk holds \<^verbatim>\<open>.git\<close>.
\<close>

lemma find_git_dir_double_root_aux:
  assumes run: "find_git_dir cwd ex p = Some r"
  shows "initial_slashes_of p = 2 \<longrightarrow> (\<exists>k. ex (join ((parent cwd ^^ k) p) ''.git''))"
proof (rule find_git_dir.raw_induct
    [where P = "\<lambda>c e q y. initial_slashes_of q = 2 \<longrightarrow>
                  (\<exists>k. e (join ((parent c ^^ k) q) ''.git''))", OF _ run])
  fix fgd :: "string \<Rightarrow> (string \<Rightarrow> bool) \<Rightarrow> string \<Rightarrow> (exn + string) option"
  fix c e q y
  assume IH: "\<And>c' e' q' y'. fgd c' e' q' = Some y' \<Longrightarrow>
                initial_slashes_of q' = 2 \<longrightarrow> (\<exists>k. e' (join ((parent c' ^^ k) q') ''.git''))"
  assume step: "(if q \<noteq> ''/'' then
                   if e (join q ''.git'') then Some (Inr q)
                   else fgd c e (abspath c (join q pardir))
                 else Some (Inl (FileNotFoundError ''.git directory not found''))) = Some y"
  show "initial_slashes_of q = 2 \<longrightarrow> (\<exists>k. e (join ((parent c ^^ k) q) ''.git''))"
  proof
    assume two: "initial_slashes_of q = 2"
    then have ne: "q \<noteq> ''/''"
      by (auto simp: initial_slashes_of_def startswith_def sep_def)
    show "\<exists>k. e (join ((parent c ^^ k) q) ''.git'')"
    proof (cases "e (join q ''.git'')")
      case True
      then have "e (join ((parent c ^^ 0) q) ''.git'')" by simp
      then show ?thesis by blast
    next
      case False
      with step ne have "fgd c e (parent c q) = Some y" by (simp add: parent_def)
      from IH [OF this] parent_double_root [OF two]
      obtain k where "e (join ((parent c ^^ k) (parent c q)) ''.git'')" by blast
      then have "e (join ((parent c ^^ Suc k) q) ''.git'')" by (simp add: funpow_swap1)
      then show ?thesis by blast
    qed
  qed
qed

lemma find_git_dir_double_root_diverges:
  assumes "initial_slashes_of path = 2"
      and "\<forall>k. \<not> ex (join ((parent cwd ^^ k) path) ''.git'')"
  shows "find_git_dir cwd ex path = None"
proof (cases "find_git_dir cwd ex path")
  case None
  then show ?thesis .
next
  case (Some r)
  from find_git_dir_double_root_aux [OF Some] assms show ?thesis by blast
qed

subsection \<open>Facts about the traces of the pipeline\<close>

lemma diff_events:
  assumes "diff env tr = Some (r, tr')"
  shows "(\<exists>e. r = Inl e \<and> tr' = tr)
       \<or> (\<exists>p e. r = Inl e \<and> tr' = tr @ [RepoInit p (Inl e)])
       \<or> (\<exists>p. tr' = tr @ [RepoInit p (Inr ()), GitDiff p r])"
  using assms
  by (auto simp: diff_def Let_def split: option.splits sum.splits)

lemma commit_message_events:
  assumes "commit_message env tr gpt4 large = Some (r, tr')"
  shows "(\<exists>e. r = Inl e \<and> tr' = tr)
       \<or> (\<exists>p e. r = Inl e \<and> tr' = tr @ [RepoInit p (Inl e)])
       \<or> (\<exists>p e. r = Inl e \<and> tr' = tr @ [RepoInit p (Inr ()), GitDiff p (Inl e)])
       \<or> (\<exists>p d. tr' = tr @ [RepoInit p (Inr ()), GitDiff p (Inr d), LogDebug ''Diff: %s'' [d],
                               RequestGoal d goal (\<not> gpt4) large r])"
proof (cases "diff env tr")
  case None
  with assms show ?thesis by (simp add: commit_message_def)
next
  case (Some a)
  obtain r1 tr1 where a: "a = (r1, tr1)" by (cases a)
  from diff_events [OF Some [unfolded a]] assms Some a show ?thesis
    by (cases r1) (auto simp: commit_message_def Let_def)
qed

lemma commit_message_extends:
  assumes "commit_message env tr gpt4 large = Some (r, tr')"
  shows "\<exists>pre. tr' = tr @ pre \<and> (\<forall>p e. GitPush p e \<notin> set pre)"
  using commit_message_events [OF assms] by auto

lemma push_events:
  assumes "push env tr = Some (r, tr')"
  shows "(\<exists>e. r = Inl e \<and> tr' = tr @ [LogDebug ''Pushing commit to remote.'' []])
       \<or> (\<exists>p e. r = Inl e \<and> tr' = tr @ [LogDebug ''Pushing commit to remote.'' [],
                                            RepoInit p (Inl e)])
       \<or> (\<exists>p. tr' = tr @ [LogDebug ''Pushing commit to remote.'' [], RepoInit p (Inr ()),
                            GitPush p r]
              \<and> repo_git_push env
                    (tr @ [LogDebug ''Pushing commit to remote.'' [], RepoInit p (Inr ())]) p = r)"
  using assms
  by (auto simp: push_def Let_def split: option.splits sum.splits)

section \<open>The claims\<close>

subsection \<open>The repository locator\<close>

text \<open>
  Claim C1, as amended.  Let the walk from the starting path \<open>path\<close> be \<open>path\<close>,
  \<open>parent cwd path\<close>, \<open>parent cwd (parent cwd path)\<close>, \<dots>  If the first directory of
  the walk that holds \<^verbatim>\<open>.git\<close> is its \<open>n\<close>-th and is not \<^verbatim>\<open>/\<close>, then
  \<open>find_git_dir\<close> returns that directory.  If the walk reaches \<^verbatim>\<open>/\<close> at its \<open>n\<close>-th
  step and no directory before holds \<^verbatim>\<open>.git\<close>, then \<open>find_git_dir\<close> raises
  \<open>FileNotFoundError\<close>, whether or not \<^verbatim>\<open>/\<close> itself holds \<^verbatim>\<open>.git\<close>.  (A walk that
  never reaches \<^verbatim>\<open>/\<close> is not covered.)
\<close>

theorem find_git_dir_nearest_or_not_found:
  "((parent cwd ^^ n) path \<noteq> ''/'' \<and> ex (join ((parent cwd ^^ n) path) ''.git'') \<and>
    (\<forall>k<n. \<not> ex (join ((parent cwd ^^ k) path) ''.git''))
      \<longrightarrow> find_git_dir cwd ex path = Some (Inr ((parent cwd ^^ n) path)))
   \<and>
   ((parent cwd ^^ n) path = ''/'' \<and>
    (\<forall>k<n. \<not> ex (join ((parent cwd ^^ k) path) ''.git''))
      \<longrightarrow> find_git_dir cwd ex path =
            Some (Inl (FileNotFoundError ''.git directory not found'')))"
proof (intro conjI impI)
  assume "(parent cwd ^^ n) path \<noteq> ''/'' \<and> ex (join ((parent cwd ^^ n) path) ''.git'') \<and>
    (\<forall>k<n. \<not> ex (join ((parent cwd ^^ k) path) ''.git''))"
  then show "find_git_dir cwd ex path = Some (Inr ((parent cwd ^^ n) path))"
    using find_git_dir_nearest_aux [where cwd = cwd and n = n and path = path and ex = ex]
    by blast
next
  assume "(parent cwd ^^ n) path = ''/'' \<and>
    (\<forall>k<n. \<not> ex (join ((parent cwd ^^ k) path) ''.git''))"
  then show "find_git_dir cwd ex path =
      Some (Inl (FileNotFoundError ''.git directory not found''))"
    using find_git_dir_not_found_aux [where cwd = cwd and n = n and path = path and ex = ex]
    by blast
qed

text \<open>
  Two runs from the default path \<^verbatim>\<open>.\<close>: in \<^verbatim>\<open>/home/u/proj/src\<close> with the repository
  one level up, and in \<^verbatim>\<open>/home/u\<close> with no repository, where the walk is
  \<^verbatim>\<open>.\<close>, \<^verbatim>\<open>/home\<close>, \<^verbatim>\<open>/\<close>.
\<close>

theorem find_git_dir_nearest_or_not_found_witness:
  "find_git_dir ''/home/u/proj/src'' fs_proj_repo ''.'' = Some (Inr ''/home/u/proj'')
   \<and> find_git_dir ''/home/u'' fs_no_repo ''.'' =
       Some (Inl (FileNotFoundError ''.git directory not found''))"
proof
  have walk: "(parent ''/home/u/proj/src'' ^^ Suc 0) ''.'' = ''/home/u/proj''"
    by (simp add: path_defs)
  show "find_git_dir ''/home/u/proj/src'' fs_proj_repo ''.'' = Some (Inr ''/home/u/proj'')"
    using find_git_dir_nearest_or_not_found
      [where cwd = "''/home/u/proj/src''" and n = "Suc 0" and path = "''.''"
         and ex = fs_proj_repo]
    unfolding walk by (simp add: fs_defs path_defs)
next
  have p1: "parent ''/home/u'' ''.'' = ''/home''"
    by (simp add: path_defs)
  have p2: "parent ''/home/u'' ''/home'' = ''/''"
    by (simp add: path_defs)
  have walk: "(parent ''/home/u'' ^^ Suc (Suc 0)) ''.'' = ''/''"
    by (simp add: p1 p2)
  show "find_git_dir ''/home/u'' fs_no_repo ''.'' =
      Some (Inl (FileNotFoundError ''.git directory not found''))"
    using find_git_dir_nearest_or_not_found
      [where cwd = "''/home/u''" and n = "Suc (Suc 0)" and path = "''.''" and ex = fs_no_repo]
    unfolding walk by (simp add: fs_defs)
qed

text \<open>
  Claim C1 as stated fails where the only directory that holds \<^verbatim>\<open>.git\<close> is the root:
  from \<^verbatim>\<open>/a\<close> the parent \<^verbatim>\<open>/\<close> holds \<^verbatim>\<open>.git\<close>, and the locator raises.
\<close>

theorem find_git_dir_root_ancestor_counterexample:
  "parent ''/'' ''/a'' = ''/''
   \<and> fs_root_repo (join (parent ''/'' ''/a'') ''.git'')
   \<and> find_git_dir ''/'' fs_root_repo ''/a'' =
       Some (Inl (FileNotFoundError ''.git directory not found''))"
  by (simp add: find_git_dir.simps fs_defs path_defs)

text \<open>
  Claim C7: the walk from \<^verbatim>\<open>//\<close> never ends.  \<^verbatim>\<open>normpath\<close> keeps two leading
  slashes, so the parent of \<^verbatim>\<open>//\<close> is \<^verbatim>\<open>//\<close>, which is not the string \<^verbatim>\<open>/\<close> the
  loop waits for: unless \<^verbatim>\<open>//.git\<close> exists, \<open>find_git_dir\<close> neither returns nor raises.
  (The same holds from every path that starts with exactly two slashes, by
  \<open>find_git_dir_double_root_diverges\<close>; from every other path the loop does end when the
  working directory does not start with exactly two slashes, by \<open>find_git_dir_terminates\<close>.)
\<close>

theorem find_git_dir_double_slash_diverges:
  "\<not> ex ''//.git'' \<Longrightarrow> find_git_dir cwd ex ''//'' = None"
proof (rule find_git_dir_double_root_diverges)
  show "initial_slashes_of ''//'' = 2"
    by (simp add: initial_slashes_of_def startswith_def sep_def)
  assume "\<not> ex ''//.git''"
  then show "\<forall>k. \<not> ex (join ((parent cwd ^^ k) ''//'') ''.git'')"
    by (simp add: funpow_parent_double_slash join_def startswith_def endswith_def sep_def)
qed

theorem find_git_dir_double_slash_diverges_witness:
  "\<not> fs_no_repo ''//.git'' \<and> find_git_dir ''/home/u'' fs_no_repo ''//'' = None"
proof -
  have h: "\<not> fs_no_repo ''//.git''" by (simp add: fs_defs)
  show ?thesis
    using h find_git_dir_double_slash_diverges
      [where ex = fs_no_repo and cwd = "''/home/u''", OF h]
    by simp
qed

text \<open>
  Claim C9: started at the root \<^verbatim>\<open>/\<close>, \<open>find_git_dir\<close> raises \<open>FileNotFoundError\<close>
  whatever the file system holds, so also when \<^verbatim>\<open>/.git\<close> exists: the loop condition
  fails at once and \<^verbatim>\<open>os.path.exists\<close> is never consulted.
\<close>

theorem find_git_dir_root_never_examined:
  "find_git_dir cwd ex ''/'' = Some (Inl (FileNotFoundError ''.git directory not found''))"
  by (rule find_git_dir_root)

theorem find_git_dir_root_never_examined_witness:
  "fs_root_repo (join ''/'' ''.git'')
   \<and> find_git_dir ''/'' fs_root_repo ''/'' =
       Some (Inl (FileNotFoundError ''.git directory not found''))"
  using find_git_dir_root_never_examined [where cwd = "''/''" and ex = fs_root_repo]
  by (simp add: fs_defs path_defs)

text \<open>
  Claim C10, as amended: when the starting path is not \<^verbatim>\<open>/\<close> and itself holds
  \<^verbatim>\<open>.git\<close>, \<open>find_git_dir\<close> returns the starting path unchanged (a relative path such
  as the default \<^verbatim>\<open>.\<close> stays relative), whatever the directories above it hold.
\<close>

theorem find_git_dir_returns_start:
  "path \<noteq> ''/'' \<Longrightarrow> ex (join path ''.git'') \<Longrightarrow> find_git_dir cwd ex path = Some (Inr path)"
  by (rule find_git_dir_here)

theorem find_git_dir_returns_start_witness:
  "''.'' \<noteq> ''/'' \<and> fs_nested_repos (join ''.'' ''.git'')
   \<and> fs_nested_repos (join (parent ''/home/u/proj'' ''.'') ''.git'')
   \<and> find_git_dir ''/home/u/proj'' fs_nested_repos ''.'' = Some (Inr ''.'')"
proof -
  have h1: "''.'' \<noteq> ''/''" by simp
  have h2: "fs_nested_repos (join ''.'' ''.git'')" by (simp add: fs_defs path_defs)
  have h3: "fs_nested_repos (join (parent ''/home/u/proj'' ''.'') ''.git'')"
    by (simp add: fs_defs path_defs)
  show ?thesis
    using h1 h2 h3
      find_git_dir_returns_start [where cwd = "''/home/u/proj''" and ex = fs_nested_repos, OF h1 h2]
    by simp
qed

text \<open>
  Claim C10 as stated fails at the starting path \<^verbatim>\<open>/\<close>: the root holds \<^verbatim>\<open>.git\<close> and
  is not returned.
\<close>

theorem find_git_dir_returns_start_counterexample:
  "fs_root_repo (join ''/'' ''.git'') \<and> find_git_dir ''/'' fs_root_repo ''/'' \<noteq> Some (Inr ''/'')"
  by (simp add: find_git_dir.simps fs_defs path_defs)

subsection \<open>The message generator\<close>

text \<open>
  Claim C2: whenever the diff step returns a diff \<open>d\<close>, \<open>commit_message\<close> issues exactly
  one completion request, and the facility is applied to \<open>fast = (\<not> gpt4)\<close> and
  \<open>large = large\<close>: with \<open>gpt4\<close> unset \<open>fast\<close> is set, with \<open>gpt4\<close> set \<open>fast\<close> is unset,
  and \<open>large\<close> is passed on as it is, for all four combinations of the flags.  The result of
  the function is the facility's answer to that request.
\<close>

theorem commit_message_flags:
  assumes "diff env tr = Some (Inr d, tr1)"
  shows "commit_message env tr gpt4 large =
           Some (request_goal env (tr1 @ [LogDebug ''Diff: %s'' [d]]) d goal (\<not> gpt4) large,
                 tr1 @ [LogDebug ''Diff: %s'' [d],
                        RequestGoal d goal (\<not> gpt4) large
                          (request_goal env (tr1 @ [LogDebug ''Diff: %s'' [d]]) d goal
                             (\<not> gpt4) large)])"
  using assms by (simp add: commit_message_def Let_def)

text \<open>
  A run with \<open>gpt4\<close> set and \<open>large\<close> unset: the request carries \<open>fast = False\<close> and
  \<open>large = False\<close>.
\<close>

theorem commit_message_flags_witness:
  "diff example_env [] =
     Some (Inr ''+line'',
           [RepoInit ''/home/u/proj'' (Inr ()), GitDiff ''/home/u/proj'' (Inr ''+line'')])
   \<and> commit_message example_env [] True False =
     Some (Inr ''Add line'',
           [RepoInit ''/home/u/proj'' (Inr ()), GitDiff ''/home/u/proj'' (Inr ''+line''),
            LogDebug ''Diff: %s'' [''+line''],
            RequestGoal ''+line'' goal False False (Inr ''Add line'')])"
proof -
  have h: "diff example_env [] =
     Some (Inr ''+line'',
           [RepoInit ''/home/u/proj'' (Inr ()), GitDiff ''/home/u/proj'' (Inr ''+line'')])"
    by (simp add: diff_def find_git_dir.simps Let_def env_defs fs_defs path_defs)
  have "commit_message example_env [] True False =
     Some (Inr ''Add line'',
           [RepoInit ''/home/u/proj'' (Inr ()), GitDiff ''/home/u/proj'' (Inr ''+line''),
            LogDebug ''Diff: %s'' [''+line''],
            RequestGoal ''+line'' goal False False (Inr ''Add line'')])"
    unfolding commit_message_flags [OF h] by (simp add: env_defs)
  with h show ?thesis by simp
qed

text \<open>
  Claim C5: when the staged diff is the empty string, \<open>commit_message\<close> still issues one
  completion request, with the empty string as its content, and returns exactly what the
  facility answers; no branch of the function looks at the diff.
\<close>

theorem commit_message_empty_diff:
  assumes "diff env tr = Some (Inr [], tr1)"
  shows "commit_message env tr gpt4 large =
           Some (request_goal env (tr1 @ [LogDebug ''Diff: %s'' [[]]]) [] goal (\<not> gpt4) large,
                 tr1 @ [LogDebug ''Diff: %s'' [[]],
                        RequestGoal [] goal (\<not> gpt4) large
                          (request_goal env (tr1 @ [LogDebug ''Diff: %s'' [[]]]) [] goal
                             (\<not> gpt4) large)])"
  using assms by (simp add: commit_message_def Let_def)

theorem commit_message_empty_diff_witness:
  "diff env_empty_diff [] =
     Some (Inr [], [RepoInit ''/home/u/proj'' (Inr ()), GitDiff ''/home/u/proj'' (Inr [])])
   \<and> commit_message env_empty_diff [] False False =
     Some (Inr ''Add line'',
           [RepoInit ''/home/u/proj'' (Inr ()), GitDiff ''/home/u/proj'' (Inr []),
            LogDebug ''Diff: %s'' [[]],
            RequestGoal [] goal True False (Inr ''Add line'')])"
proof -
  have h: "diff env_empty_diff [] =
     Some (Inr [], [RepoInit ''/home/u/proj'' (Inr ()), GitDiff ''/home/u/proj'' (Inr [])])"
    by (simp add: diff_def find_git_dir.simps
        Let_def env_defs fs_defs path_defs)
  show ?thesis
    using h commit_message_empty_diff [OF h]
    by (simp add: env_defs)
qed

text \<open>
  Claim C8: whenever the diff step returns a diff \<open>d\<close>, the completion request that
  \<open>commit_message\<close> issues has the instruction \<open>goal\<close>, and \<open>goal\<close> is one fixed string: the
  same for every diff and every combination of the two flags.  The diff appears only as the
  content of the request and the flags only as its \<open>fast\<close> and \<open>large\<close> arguments.
\<close>

theorem commit_message_goal_fixed:
  assumes "diff env tr = Some (Inr d, tr1)"
  shows "commit_message env tr gpt4 large =
           Some (request_goal env (tr1 @ [LogDebug ''Diff: %s'' [d]]) d goal (\<not> gpt4) large,
                 tr1 @ [LogDebug ''Diff: %s'' [d],
                        RequestGoal d goal (\<not> gpt4) large
                          (request_goal env (tr1 @ [LogDebug ''Diff: %s'' [d]]) d goal
                             (\<not> gpt4) large)])
         \<and> goal = [CHR 0x0A]
                  @ ''Create a short, single-line, git commit message for these changes''
                  @ [CHR 0x0A]"
  using assms by (simp add: commit_message_def Let_def goal_def)

text \<open>
  Two runs that differ in the diff and in both flags submit the same instruction.
\<close>

theorem commit_message_goal_fixed_witness:
  "diff example_env [] =
     Some (Inr ''+line'',
           [RepoInit ''/home/u/proj'' (Inr ()), GitDiff ''/home/u/proj'' (Inr ''+line'')])
   \<and> commit_message example_env [] False True =
     Some (Inr ''Add line'',
           [RepoInit ''/home/u/proj'' (Inr ()), GitDiff ''/home/u/proj'' (Inr ''+line''),
            LogDebug ''Diff: %s'' [''+line''],
            RequestGoal ''+line''
              ([CHR 0x0A]
               @ ''Create a short, single-line, git commit message for these changes''
               @ [CHR 0x0A])
              True True (Inr ''Add line'')])
   \<and> diff env_empty_diff [] =
     Some (Inr [], [RepoInit ''/home/u/proj'' (Inr ()), GitDiff ''/home/u/proj'' (Inr [])])
   \<and> commit_message env_empty_diff [] True False =
     Some (Inr ''Add line'',
           [RepoInit ''/home/u/proj'' (Inr ()), GitDiff ''/home/u/proj'' (Inr []),
            LogDebug ''Diff: %s'' [[]],
            RequestGoal []
              ([CHR 0x0A]
               @ ''Create a short, single-line, git commit message for these changes''
               @ [CHR 0x0A])
              False False (Inr ''Add line'')])"
proof -
  have h1: "diff example_env [] =
     Some (Inr ''+line'',
           [RepoInit ''/home/u/proj'' (Inr ()), GitDiff ''/home/u/proj'' (Inr ''+line'')])"
    by (simp add: diff_def find_git_dir.simps Let_def env_defs fs_defs path_defs)
  have h2: "diff env_empty_diff [] =
     Some (Inr [], [RepoInit ''/home/u/proj'' (Inr ()), GitDiff ''/home/u/proj'' (Inr [])])"
    by (simp add: diff_def find_git_dir.simps Let_def env_defs fs_defs path_defs)
  note r1 = commit_message_goal_fixed [OF h1]
  note r2 = commit_message_goal_fixed [OF h2]
  have c1: "commit_message example_env [] False True =
     Some (Inr ''Add line'',
           [RepoInit ''/home/u/proj'' (Inr ()), GitDiff ''/home/u/proj'' (Inr ''+line''),
            LogDebug ''Diff: %s'' [''+line''],
            RequestGoal ''+line''
              ([CHR 0x0A]
               @ ''Create a short, single-line, git commit message for these changes''
               @ [CHR 0x0A])
              True True (Inr ''Add line'')])"
    using r1 [where large = True] by (simp add: env_defs)
  have c2: "commit_message env_empty_diff [] True False =
     Some (Inr ''Add line'',
           [RepoInit ''/home/u/proj'' (Inr ()), GitDiff ''/home/u/proj'' (Inr []),
            LogDebug ''Diff: %s'' [[]],
            RequestGoal []
              ([CHR 0x0A]
               @ ''Create a short, single-line, git commit message for these changes''
               @ [CHR 0x0A])
              False False (Inr ''Add line'')])"
    using r2 [where large = False] by (simp add: env_defs)
  from h1 c1 h2 c2 show ?thesis by simp
qed

subsection \<open>The commit executor\<close>

text \<open>
  Claim C3: when \<open>commit\<close> completes without an error, its result is a map whose only key
  is \<^verbatim>\<open>response\<close>.  The commit operation was called and answered a string \<open>c\<close>.  With
  \<open>push_flag\<close> unset that call is the last event and the value under \<^verbatim>\<open>response\<close> is
  \<open>c\<close>; with \<open>push_flag\<close> set the run ends with the push, which answered a string \<open>r\<close>,
  and the value is \<open>c\<close>, a newline, then \<open>r\<close>.
\<close>

theorem commit_response:
  assumes "commit env tr gpt4 large push_flag = Some (Inr m, tr')"
  shows "\<exists>pre p message c.
           dom m = {''response''} \<and>
           repo_git_commit env (tr @ pre) p message = Inr c \<and>
           (if push_flag then
              (\<exists>q r. tr' = tr @ pre @ [GitCommit p message (Inr c),
                                       LogDebug ''Pushing commit to remote.'' [],
                                       RepoInit q (Inr ()), GitPush q (Inr r)]
                     \<and> repo_git_push env
                           (tr @ pre @ [GitCommit p message (Inr c),
                                        LogDebug ''Pushing commit to remote.'' [],
                                        RepoInit q (Inr ())]) q = Inr r
                     \<and> m ''response'' = Some (c @ [CHR 0x0A] @ r))
            else tr' = tr @ pre @ [GitCommit p message (Inr c)]
                 \<and> m ''response'' = Some c)"
proof (cases "commit_message env tr gpt4 large")
  case None
  with assms show ?thesis by (simp add: commit_def)
next
  case (Some a)
  obtain r1 tr1 where a: "a = (r1, tr1)" by (cases a)
  from commit_message_extends [OF Some [unfolded a]]
  obtain pre1 where tr1: "tr1 = tr @ pre1" by auto
  show ?thesis
    using assms Some a tr1
    by (auto simp: commit_def Let_def split: option.splits sum.splits if_splits
        dest!: push_events)
qed

text \<open>
  Two runs of \<open>example_env\<close>, without and with the push.
\<close>

theorem commit_response_witness:
  "commit example_env [] False False False =
     Some (Inr [''response'' \<mapsto> ''[main 1a2b3c4] Add line''],
           [RepoInit ''/home/u/proj'' (Inr ()), GitDiff ''/home/u/proj'' (Inr ''+line''),
            LogDebug ''Diff: %s'' [''+line''],
            RequestGoal ''+line'' goal True False (Inr ''Add line''),
            LogDebug ''Commit Message: %s'' [''Add line''],
            RepoInit ''/home/u/proj'' (Inr ()),
            GitCommit ''/home/u/proj'' ''Add line'' (Inr ''[main 1a2b3c4] Add line'')])
   \<and> dom [''response'' \<mapsto> ''[main 1a2b3c4] Add line''] = {''response''}
   \<and> commit example_env [] False False True =
     Some (Inr [''response'' \<mapsto> ''[main 1a2b3c4] Add line'' @ [CHR 0x0A] @ ''pushed''],
           [RepoInit ''/home/u/proj'' (Inr ()), GitDiff ''/home/u/proj'' (Inr ''+line''),
            LogDebug ''Diff: %s'' [''+line''],
            RequestGoal ''+line'' goal True False (Inr ''Add line''),
            LogDebug ''Commit Message: %s'' [''Add line''],
            RepoInit ''/home/u/proj'' (Inr ()),
            GitCommit ''/home/u/proj'' ''Add line'' (Inr ''[main 1a2b3c4] Add line''),
            LogDebug ''Pushing commit to remote.'' [],
            RepoInit ''/home/u/proj'' (Inr ()),
            GitPush ''/home/u/proj'' (Inr ''pushed'')])
   \<and> dom [''response'' \<mapsto> ''[main 1a2b3c4] Add line'' @ [CHR 0x0A] @ ''pushed'']
       = {''response''}"
proof -
  have h1: "commit example_env [] False False False =
     Some (Inr [''response'' \<mapsto> ''[main 1a2b3c4] Add line''],
           [RepoInit ''/home/u/proj'' (Inr ()), GitDiff ''/home/u/proj'' (Inr ''+line''),
            LogDebug ''Diff: %s'' [''+line''],
            RequestGoal ''+line'' goal True False (Inr ''Add line''),
            LogDebug ''Commit Message: %s'' [''Add line''],
            RepoInit ''/home/u/proj'' (Inr ()),
            GitCommit ''/home/u/proj'' ''Add line'' (Inr ''[main 1a2b3c4] Add line'')])"
    by (simp add: commit_def commit_message_def diff_def find_git_dir.simps
        Let_def env_defs fs_defs path_defs)
  have h2: "commit example_env [] False False True =
     Some (Inr [''response'' \<mapsto> ''[main 1a2b3c4] Add line'' @ [CHR 0x0A] @ ''pushed''],
           [RepoInit ''/home/u/proj'' (Inr ()), GitDiff ''/home/u/proj'' (Inr ''+line''),
            LogDebug ''Diff: %s'' [''+line''],
            RequestGoal ''+line'' goal True False (Inr ''Add line''),
            LogDebug ''Commit Message: %s'' [''Add line''],
            RepoInit ''/home/u/proj'' (Inr ()),
            GitCommit ''/home/u/proj'' ''Add line'' (Inr ''[main 1a2b3c4] Add line''),
            LogDebug ''Pushing commit to remote.'' [],
            RepoInit ''/home/u/proj'' (Inr ()),
            GitPush ''/home/u/proj'' (Inr ''pushed'')])"
    by (simp add: commit_def push_def commit_message_def diff_def find_git_dir.simps
        Let_def env_defs fs_defs path_defs)
  from commit_response [OF h1]
  have c1: "dom [''response'' \<mapsto> ''[main 1a2b3c4] Add line''] = {''response''}"
    by blast
  from commit_response [OF h2]
  have c2: "dom [''response'' \<mapsto> ''[main 1a2b3c4] Add line'' @ [CHR 0x0A] @ ''pushed'']
       = {''response''}"
    by blast
  show ?thesis using h1 h2 c1 c2 by blast
qed



text \<open>
  Claim C6: when the locator, the first step of the pipeline, raises, \<open>commit\<close> ends with
  that error, which is the locator's \<open>FileNotFoundError\<close>, and its trace is the trace it
  started with: no repository was opened, no diff read, no completion requested, and no
  commit or push made.
\<close>

theorem commit_locator_failure:
  assumes "find_git_dir (os_getcwd env) (os_path_exists env tr) ''.'' = Some (Inl e)"
  shows "commit env tr gpt4 large push_flag = Some (Inl e, tr)
         \<and> e = FileNotFoundError ''.git directory not found''"
  using assms find_git_dir_result [OF assms]
  by (simp add: commit_def commit_message_def diff_def)

theorem commit_locator_failure_witness:
  "find_git_dir (os_getcwd env_no_repo) (os_path_exists env_no_repo []) ''.'' =
     Some (Inl (FileNotFoundError ''.git directory not found''))
   \<and> commit env_no_repo [] False False True =
     Some (Inl (FileNotFoundError ''.git directory not found''), [])"
proof -
  have h: "find_git_dir (os_getcwd env_no_repo) (os_path_exists env_no_repo []) ''.'' =
     Some (Inl (FileNotFoundError ''.git directory not found''))"
    by (simp add: find_git_dir.simps
        Let_def env_defs fs_defs path_defs)
  show ?thesis
    using h commit_locator_failure [OF h]
    by simp
qed

end
